theory Spec2Isabelle
  imports Main
begin

section \<open>Python primitives used by the chunking code\<close>

text \<open>
  Python integers are unbounded, so they are \<^typ>\<open>int\<close>. A Python \<open>str\<close> is a list of
  characters; \<open>len\<close> is \<^const>\<open>length\<close>, one list element standing for one character.
\<close>

text \<open>
  A slice bound \<open>i\<close> on a list of length \<open>n\<close>: a negative bound counts from the end, and
  the result is clipped into \<open>0..n\<close>.
\<close>

definition py_bound :: "nat \<Rightarrow> int \<Rightarrow> nat" where
  "py_bound n i = (if i < 0 then nat (max 0 (int n + i)) else min n (nat i))"

text \<open>\<open>xs[a:b]\<close>; empty when the clipped bounds cross.\<close>

definition py_slice :: "'a list \<Rightarrow> int \<Rightarrow> int \<Rightarrow> 'a list" where
  "py_slice xs a b =
     (let lo = py_bound (length xs) a; hi = py_bound (length xs) b
      in take (hi - lo) (drop lo xs))"

text \<open>\<open>str(n)\<close> for an integer: decimal digits, a leading minus sign when negative.\<close>

definition digit_char :: "nat \<Rightarrow> char" where
  "digit_char d = ''0123456789'' ! d"

fun str_nat :: "nat \<Rightarrow> string" where
  "str_nat n = (if n < 10 then [digit_char n] else str_nat (n div 10) @ [digit_char (n mod 10)])"

definition str_int :: "int \<Rightarrow> string" where
  "str_int i = (if i < 0 then CHR ''-'' # str_nat (nat (- i)) else str_nat (nat i))"

text \<open>\<open>sep.join(xs)\<close>, as \<open>extract_text\<close> uses it to build the full text from the pages.\<close>

fun py_join :: "string \<Rightarrow> string list \<Rightarrow> string" where
  "py_join sep [] = []"
| "py_join sep [x] = x"
| "py_join sep (x # y # ys) = x @ sep @ py_join sep (y # ys)"

text \<open>The page separator \<open>'\n\n'\<close>.\<close>

definition page_sep :: string where
  "page_sep = [CHR 0x0A, CHR 0x0A]"


section \<open>Data\<close>

text \<open>
  One entry of \<open>pages_data\<close>: a dictionary read only through \<open>.get('text', '')\<close> and
  \<open>.get('pageNumber', 1)\<close>; a field is \<open>None\<close> when the key is absent.
\<close>

record page =
  p_pageNumber :: "int option"
  p_text :: "string option"

definition page_text_of :: "page \<Rightarrow> string" where
  "page_text_of pg = (case p_text pg of None \<Rightarrow> [] | Some t \<Rightarrow> t)"

definition page_number_of :: "page \<Rightarrow> int" where
  "page_number_of pg = (case p_pageNumber pg of None \<Rightarrow> 1 | Some n \<Rightarrow> n)"

text \<open>One entry of the page map: the keys \<open>start_pos\<close>, \<open>end_pos\<close>, \<open>page_number\<close>.\<close>

record page_info =
  start_pos :: int
  end_pos :: int
  page_number :: int

text \<open>
  The \<open>metadata\<close> argument of \<open>chunk_text\<close>, read through \<open>.get\<close> with defaults, and the
  snapshot stored in every chunk.
\<close>

record doc_metadata =
  md_filename :: "string option"
  md_uploadedBy :: "string option"
  md_uploadedAt :: "int option"
  md_pageCount :: "int option"

record chunk_metadata =
  filename :: string
  uploadedBy :: string
  uploadedAt :: int
  pageCount :: int

record chunk =
  chunkId :: string
  documentId :: string
  chunkText :: string
  chunkIndex :: int
  pageNumber :: int
  tokenCount :: int
  startToken :: int
  endToken :: int
  metadata :: chunk_metadata

text \<open>
  The tiktoken encoding object: \<open>encode\<close> may raise (an exception \<open>'e\<close>), \<open>decode\<close>
  returns a string. Token ids are integers.
\<close>

record 'e encoding =
  encode :: "string \<Rightarrow> 'e + int list"
  decode :: "int list \<Rightarrow> string"


section \<open>The page map\<close>

text \<open>
  The loop of \<open>build_page_map\<close>; the state is \<open>current_pos\<close> and the list built so far.
\<close>

fun build_page_map_loop :: "page list \<Rightarrow> int \<Rightarrow> page_info list \<Rightarrow> page_info list" where
  "build_page_map_loop [] current_pos page_map = page_map"
| "build_page_map_loop (pg # rest) current_pos page_map =
     (let cur = (if current_pos > 0 then current_pos + 2 else current_pos);
          e = cur + int (length (page_text_of pg))
      in build_page_map_loop rest e
           (page_map @ [\<lparr>start_pos = cur, end_pos = e, page_number = page_number_of pg\<rparr>]))"

definition build_page_map :: "page list \<Rightarrow> page_info list" where
  "build_page_map pages_data = build_page_map_loop pages_data 0 []"

text \<open>The \<open>for\<close> loop of \<open>get_page_number_for_position\<close>: the first matching entry returns.\<close>

fun scan_page_map :: "int \<Rightarrow> page_info list \<Rightarrow> int option" where
  "scan_page_map char_pos [] = None"
| "scan_page_map char_pos (pinfo # rest) =
     (if start_pos pinfo \<le> char_pos \<and> char_pos < end_pos pinfo then Some (page_number pinfo)
      else scan_page_map char_pos rest)"

definition get_page_number_for_position :: "int \<Rightarrow> page_info list \<Rightarrow> int" where
  "get_page_number_for_position char_pos page_map =
     (case scan_page_map char_pos page_map of
        Some n \<Rightarrow> n
      | None \<Rightarrow> (if page_map \<noteq> [] then page_number (last page_map) else 1))"


section \<open>Chunking\<close>

definition snapshot_metadata :: "doc_metadata \<Rightarrow> chunk_metadata" where
  "snapshot_metadata md =
     \<lparr>filename = (case md_filename md of None \<Rightarrow> ''unknown.pdf'' | Some v \<Rightarrow> v),
      uploadedBy = (case md_uploadedBy md of None \<Rightarrow> ''system'' | Some v \<Rightarrow> v),
      uploadedAt = (case md_uploadedAt md of None \<Rightarrow> 0 | Some v \<Rightarrow> v),
      pageCount = (case md_pageCount md of None \<Rightarrow> 0 | Some v \<Rightarrow> v)\<rparr>"

text \<open>The body of the \<open>while\<close> loop up to \<open>chunks.append(chunk)\<close>: the chunk of one window.\<close>

definition make_chunk ::
  "'e encoding \<Rightarrow> int list \<Rightarrow> page_info list \<Rightarrow> string \<Rightarrow> doc_metadata \<Rightarrow> int \<Rightarrow> int \<Rightarrow> int \<Rightarrow> chunk"
where
  "make_chunk enc tokens page_map document_id md chunk_size start chunk_index =
     (let endp = min (start + chunk_size) (int (length tokens));
          chunk_tokens = py_slice tokens start endp;
          char_pos = int (length (decode enc (py_slice tokens 0 start)))
      in \<lparr>chunkId = document_id @ ''#chunk#'' @ str_int chunk_index,
          documentId = document_id,
          chunkText = decode enc chunk_tokens,
          chunkIndex = chunk_index,
          pageNumber = get_page_number_for_position char_pos page_map,
          tokenCount = int (length chunk_tokens),
          startToken = start,
          endToken = endp,
          metadata = snapshot_metadata md\<rparr>)"

text \<open>
  The \<open>while start_pos < total_tokens\<close> loop. It need not terminate, so it is a partial
  function: \<open>None\<close> is a loop that runs forever.
\<close>

partial_function (option) chunk_loop ::
  "'e encoding \<Rightarrow> int list \<Rightarrow> page_info list \<Rightarrow> string \<Rightarrow> doc_metadata \<Rightarrow> int \<Rightarrow> int
     \<Rightarrow> int \<Rightarrow> int \<Rightarrow> chunk list \<Rightarrow> chunk list option"
where
  "chunk_loop enc tokens page_map document_id md chunk_size overlap start chunk_index chunks =
     (if start < int (length tokens) then
        (if min (start + chunk_size) (int (length tokens)) \<ge> int (length tokens)
         then Some (chunks @ [make_chunk enc tokens page_map document_id md chunk_size start chunk_index])
         else chunk_loop enc tokens page_map document_id md chunk_size overlap
                (start + chunk_size - overlap) (chunk_index + 1)
                (chunks @ [make_chunk enc tokens page_map document_id md chunk_size start chunk_index]))
      else Some chunks)"

declare chunk_loop.simps [code]

text \<open>
  \<open>chunk_text\<close>: \<open>get_encoding\<close> is the outcome of \<open>tiktoken.get_encoding("cl100k_base")\<close>,
  whose exception is re-raised. The result is \<open>None\<close> when the call never returns,
  \<open>Some (Inl e)\<close> when it raises \<open>e\<close>, \<open>Some (Inr chunks)\<close> when it returns \<open>chunks\<close>.
\<close>

definition chunk_text ::
  "'e + 'e encoding \<Rightarrow> string \<Rightarrow> page list \<Rightarrow> string \<Rightarrow> doc_metadata \<Rightarrow> int \<Rightarrow> int
     \<Rightarrow> ('e + chunk list) option"
where
  "chunk_text get_encoding text pages_data document_id md chunk_size overlap =
     (case get_encoding of
        Inl err \<Rightarrow> Some (Inl err)
      | Inr enc \<Rightarrow>
          (let page_map = build_page_map pages_data
           in case encode enc text of
                Inl err \<Rightarrow> Some (Inl err)
              | Inr tokens \<Rightarrow>
                  map_option Inr
                    (chunk_loop enc tokens page_map document_id md chunk_size overlap 0 0 [])))"

text \<open>
  A stand-in tokenizer in the manner of the test suite's mock: \<open>encode\<close> returns a fixed
  token list whatever the text; \<open>decode\<close> returns one character per token.
\<close>

definition mock_encoding :: "int list \<Rightarrow> unit encoding" where
  "mock_encoding toks = \<lparr>encode = (\<lambda>_. Inr toks), decode = map (\<lambda>_. CHR ''t'')\<rparr>"

text \<open>A metadata dictionary with no keys: every field of the snapshot takes its default.\<close>

definition md0 :: doc_metadata where
  "md0 = \<lparr>md_filename = None, md_uploadedBy = None, md_uploadedAt = None, md_pageCount = None\<rparr>"

text \<open>
  A chunk of document \<open>doc\<close> with no page map (page 1) and no metadata keys (all defaults),
  as the runs below produce them.
\<close>

definition doc_chunk :: "string \<Rightarrow> string \<Rightarrow> int \<Rightarrow> int \<Rightarrow> int \<Rightarrow> int \<Rightarrow> chunk" where
  "doc_chunk cid txt idx cnt s e =
     \<lparr>chunkId = cid, documentId = ''doc'', chunkText = txt, chunkIndex = idx, pageNumber = 1,
      tokenCount = cnt, startToken = s, endToken = e,
      metadata = \<lparr>filename = ''unknown.pdf'', uploadedBy = ''system'', uploadedAt = 0,
                   pageCount = 0\<rparr>\<rparr>"

text \<open>The two chunks of five tokens under windows of three with overlap one.\<close>

definition five_token_chunks :: "chunk list" where
  "five_token_chunks =
     [doc_chunk ''doc#chunk#0'' ''ttt'' 0 3 0 3, doc_chunk ''doc#chunk#1'' ''ttt'' 1 3 2 5]"

text \<open>
  The pages and the page map of the tests \<open>test_build_page_map\<close> and
  \<open>test_get_page_number_for_position\<close>.
\<close>

definition page_one :: page where
  "page_one = \<lparr>p_pageNumber = Some 1, p_text = Some ''Page one''\<rparr>"

definition page_two :: page where
  "page_two = \<lparr>p_pageNumber = Some 2, p_text = Some ''Page two''\<rparr>"

definition page_three :: page where
  "page_three = \<lparr>p_pageNumber = Some 3, p_text = Some ''Page three''\<rparr>"

definition test_page_map :: "page_info list" where
  "test_page_map =
     [\<lparr>start_pos = 0, end_pos = 10, page_number = 1\<rparr>,
      \<lparr>start_pos = 12, end_pos = 25, page_number = 2\<rparr>,
      \<lparr>start_pos = 27, end_pos = 40, page_number = 3\<rparr>]"


section \<open>Facts about the window loop\<close>

lemma py_slice_length:
  "0 \<le> a \<Longrightarrow> a \<le> b \<Longrightarrow> b \<le> int (length xs) \<Longrightarrow> int (length (py_slice xs a b)) = b - a"
proof -
  assume a: "0 \<le> a" and ab: "a \<le> b" and b: "b \<le> int (length xs)"
  have lo: "py_bound (length xs) a = nat a" and hi: "py_bound (length xs) b = nat b"
    using a ab b by (simp_all add: py_bound_def)
  have "length (py_slice xs a b) = nat b - nat a"
    using a ab b by (simp add: py_slice_def lo hi Let_def)
  then show ?thesis using a ab by simp
qed

lemma make_chunk_fields [simp]:
  "chunkId (make_chunk enc tokens pm doc md cs start idx) = doc @ ''#chunk#'' @ str_int idx"
  "chunkIndex (make_chunk enc tokens pm doc md cs start idx) = idx"
  "startToken (make_chunk enc tokens pm doc md cs start idx) = start"
  "endToken (make_chunk enc tokens pm doc md cs start idx) = min (start + cs) (int (length tokens))"
  "tokenCount (make_chunk enc tokens pm doc md cs start idx) =
     int (length (py_slice tokens start (min (start + cs) (int (length tokens)))))"
  by (simp_all add: make_chunk_def Let_def)

lemma chunk_loop_steps:
  assumes step: "ov < cs"
  shows "\<exists>n. chunk_loop enc tokens pm doc md cs ov start idx chunks =
           Some (chunks @ map (\<lambda>i. make_chunk enc tokens pm doc md cs
                                   (start + int i * (cs - ov)) (idx + int i)) [0..<n])
       \<and> (n = 0 \<longleftrightarrow> int (length tokens) \<le> start)
       \<and> (\<forall>i. Suc i < n \<longrightarrow> start + int i * (cs - ov) + cs < int (length tokens))
       \<and> (\<forall>i. i < n \<longrightarrow> start + int i * (cs - ov) < int (length tokens))
       \<and> (0 < n \<longrightarrow> int (length tokens) \<le> start + int (n - 1) * (cs - ov) + cs
                    \<or> int (length tokens) \<le> start + int n * (cs - ov))"
  (is "\<exists>n. ?R start idx chunks n")
proof (induction "nat (int (length tokens) - start)" arbitrary: start idx chunks rule: less_induct)
  case less
  let ?total = "int (length tokens)"
  let ?c = "make_chunk enc tokens pm doc md cs start idx"
  show ?case
  proof (cases "start < ?total")
    case False
    then have "?R start idx chunks 0"
      by (simp add: chunk_loop.simps)
    then show ?thesis ..
  next
    case lt: True
    show ?thesis
    proof (cases "?total \<le> start + cs")
      case True
      with \<open>start < ?total\<close> have "?R start idx chunks 1"
        by (simp add: chunk_loop.simps)
      then show ?thesis ..
    next
      case False
      have dec: "nat (?total - (start + cs - ov)) < nat (?total - start)"
        using step \<open>start < ?total\<close> by linarith
      from less [OF dec, of "idx + 1" "chunks @ [?c]"]
      obtain n where n: "?R (start + cs - ov) (idx + 1) (chunks @ [?c]) n"
        by blast
      have unfold: "chunk_loop enc tokens pm doc md cs ov start idx chunks =
          chunk_loop enc tokens pm doc md cs ov (start + cs - ov) (idx + 1) (chunks @ [?c])"
        using False \<open>start < ?total\<close> by (subst chunk_loop.simps) simp
      have shift: "start + cs - ov + int i * (cs - ov) = start + int (Suc i) * (cs - ov)" for i
        by (simp add: algebra_simps)
      have shift2: "idx + 1 + int i = idx + int (Suc i)" for i
        by simp
      have upt: "[0..<Suc n] = 0 # map Suc [0..<n]"
        by (simp add: upt_conv_Cons map_Suc_upt del: upt_Suc)
      have res: "chunk_loop enc tokens pm doc md cs ov start idx chunks =
           Some (chunks @ map (\<lambda>i. make_chunk enc tokens pm doc md cs
                                   (start + int i * (cs - ov)) (idx + int i)) [0..<Suc n])"
        unfolding unfold upt using n by (simp add: shift shift2 o_def del: of_nat_Suc)
      have a: "\<forall>i. Suc i < Suc n \<longrightarrow> start + int i * (cs - ov) + cs < ?total"
      proof (intro allI impI)
        fix i assume "Suc i < Suc n"
        show "start + int i * (cs - ov) + cs < ?total"
        proof (cases i)
          case 0 with False show ?thesis by simp
        next
          case (Suc j)
          with \<open>Suc i < Suc n\<close> have "Suc j < n" by simp
          with n have "start + cs - ov + int j * (cs - ov) + cs < ?total" by blast
          then show ?thesis unfolding shift Suc .
        qed
      qed
      have b: "\<forall>i. i < Suc n \<longrightarrow> start + int i * (cs - ov) < ?total"
      proof (intro allI impI)
        fix i assume "i < Suc n"
        show "start + int i * (cs - ov) < ?total"
        proof (cases i)
          case 0 with \<open>start < ?total\<close> show ?thesis by simp
        next
          case (Suc j)
          with \<open>i < Suc n\<close> have "j < n" by simp
          with n have "start + cs - ov + int j * (cs - ov) < ?total" by blast
          then show ?thesis unfolding shift Suc .
        qed
      qed
      have c: "?total \<le> start + int (Suc n - 1) * (cs - ov) + cs
                 \<or> ?total \<le> start + int (Suc n) * (cs - ov)"
      proof (cases n)
        case 0
        with n have "?total \<le> start + cs - ov" by simp
        with 0 show ?thesis by simp
      next
        case (Suc m)
        with n have "?total \<le> start + cs - ov + int m * (cs - ov) + cs
                 \<or> ?total \<le> start + cs - ov + int n * (cs - ov)" by simp
        then show ?thesis unfolding shift Suc by simp
      qed
      have "?R start idx chunks (Suc n)"
        using res a b c lt by simp
      then show ?thesis ..
    qed
  qed
qed

lemma chunk_loop_Some_not_stuck:
  "chunk_loop enc tokens pm doc md cs ov start idx chunks = Some y \<Longrightarrow>
     \<not> (cs \<le> ov \<and> start < int (length tokens) \<and> start + cs < int (length tokens))"
proof (induction rule: chunk_loop.raw_induct [rotated 1, consumes 1])
  case (1 f enc tokens pm doc md cs ov start idx chunks y)
  show ?case
  proof
    assume inv: "cs \<le> ov \<and> start < int (length tokens) \<and> start + cs < int (length tokens)"
    with 1(2) have "f enc tokens pm doc md cs ov (start + cs - ov) (idx + 1)
        (chunks @ [make_chunk enc tokens pm doc md cs start idx]) = Some y"
      by (simp split: if_splits)
    from 1(1) [OF this] inv show False by linarith
  qed
qed

lemma chunk_loop_diverges:
  "cs \<le> ov \<Longrightarrow> start < int (length tokens) \<Longrightarrow> start + cs < int (length tokens) \<Longrightarrow>
     chunk_loop enc tokens pm doc md cs ov start idx chunks = None"
  using chunk_loop_Some_not_stuck [of enc tokens pm doc md cs ov start idx chunks]
  by (cases "chunk_loop enc tokens pm doc md cs ov start idx chunks") auto

lemma chunk_loop_indices:
  "chunk_loop enc tokens pm doc md cs ov start idx chunks = Some y \<Longrightarrow>
     \<exists>ws. y = chunks @ ws \<and>
       (\<forall>i<length ws. chunkIndex (ws ! i) = idx + int i \<and>
                       chunkId (ws ! i) = doc @ ''#chunk#'' @ str_int (idx + int i))"
proof (induction rule: chunk_loop.raw_induct [rotated 1, consumes 1])
  case (1 f enc tokens pm doc md cs ov start idx chunks y)
  let ?c = "make_chunk enc tokens pm doc md cs start idx"
  consider (stop) "\<not> start < int (length tokens)" "y = chunks"
    | (brk) "y = chunks @ [?c]"
    | (rec) "f enc tokens pm doc md cs ov (start + cs - ov) (idx + 1) (chunks @ [?c]) = Some y"
  proof (cases "start < int (length tokens)")
    case False
    with 1(2) have "y = chunks" by simp
    with False stop show ?thesis by blast
  next
    case lt: True
    show ?thesis
    proof (cases "int (length tokens) \<le> min (start + cs) (int (length tokens))")
      case True
      with lt 1(2) have "y = chunks @ [?c]" by simp
      with brk show ?thesis by blast
    next
      case False
      with lt 1(2) have "f enc tokens pm doc md cs ov (start + cs - ov) (idx + 1) (chunks @ [?c]) = Some y"
        by simp
      with rec show ?thesis by blast
    qed
  qed
  then show ?case
  proof cases
    case stop
    then show ?thesis by simp
  next
    case brk
    then show ?thesis by simp
  next
    case rec
    from 1(1) [OF rec] obtain ws where ws: "y = (chunks @ [?c]) @ ws"
      "\<forall>i<length ws. chunkIndex (ws ! i) = idx + 1 + int i \<and>
                       chunkId (ws ! i) = doc @ ''#chunk#'' @ str_int (idx + 1 + int i)"
      by blast
    have "\<forall>i<length (?c # ws). chunkIndex ((?c # ws) ! i) = idx + int i \<and>
                       chunkId ((?c # ws) ! i) = doc @ ''#chunk#'' @ str_int (idx + int i)"
    proof (intro allI impI)
      fix i assume "i < length (?c # ws)"
      then show "chunkIndex ((?c # ws) ! i) = idx + int i \<and>
                       chunkId ((?c # ws) ! i) = doc @ ''#chunk#'' @ str_int (idx + int i)"
        using ws(2) by (cases i) (simp_all add: add.assoc)
    qed
    with ws(1) show ?thesis by (intro exI [of _ "?c # ws"]) simp
  qed
qed

lemma chunk_text_windows:
  assumes enc: "encode enc text = Inr tokens" and step: "ov < cs"
  shows "\<exists>n. chunk_text (Inr enc) text pages doc md cs ov =
           Some (Inr (map (\<lambda>i. make_chunk enc tokens (build_page_map pages) doc md cs
                                   (int i * (cs - ov)) (int i)) [0..<n]))
       \<and> (n = 0 \<longleftrightarrow> tokens = [])
       \<and> (\<forall>i. Suc i < n \<longrightarrow> int i * (cs - ov) + cs < int (length tokens))
       \<and> (\<forall>i. i < n \<longrightarrow> int i * (cs - ov) < int (length tokens))
       \<and> (0 < n \<longrightarrow> int (length tokens) \<le> int (n - 1) * (cs - ov) + cs
                    \<or> int (length tokens) \<le> int n * (cs - ov))"
proof -
  from chunk_loop_steps [OF step, of enc tokens "build_page_map pages" doc md 0 0 "[]"]
  obtain n where n:
    "chunk_loop enc tokens (build_page_map pages) doc md cs ov 0 0 [] =
       Some (map (\<lambda>i. make_chunk enc tokens (build_page_map pages) doc md cs
                                   (int i * (cs - ov)) (int i)) [0..<n])"
    "n = 0 \<longleftrightarrow> tokens = []"
    "\<forall>i. Suc i < n \<longrightarrow> int i * (cs - ov) + cs < int (length tokens)"
    "\<forall>i. i < n \<longrightarrow> int i * (cs - ov) < int (length tokens)"
    "0 < n \<longrightarrow> int (length tokens) \<le> int (n - 1) * (cs - ov) + cs
                    \<or> int (length tokens) \<le> int n * (cs - ov)"
    by auto
  have "chunk_text (Inr enc) text pages doc md cs ov =
           Some (Inr (map (\<lambda>i. make_chunk enc tokens (build_page_map pages) doc md cs
                                   (int i * (cs - ov)) (int i)) [0..<n]))"
    by (simp add: chunk_text_def enc n(1))
  with n(2-5) show ?thesis by blast
qed

lemma covered_by_windows:
  fixes t step cs total :: int
  assumes step: "0 < step" "step \<le> cs" and t: "0 \<le> t" "t < total" and n: "0 < n"
    and full: "\<forall>i. Suc i < n \<longrightarrow> int i * step + cs < total"
    and fin: "total \<le> int (n - 1) * step + cs"
  shows "\<exists>i<n. int i * step \<le> t \<and> t < min (int i * step + cs) total"
proof -
  let ?k = "nat (t div step)"
  have k: "int ?k = t div step" using t step by (simp add: pos_imp_zdiv_nonneg_iff)
  have lo: "int ?k * step \<le> t"
    unfolding k using step(1) by (metis div_mult_mod_eq pos_mod_sign add.commute le_add_same_cancel2 add_increasing2 order_refl)
  have hi: "t < int ?k * step + step"
    unfolding k using step(1) by (metis div_mult_mod_eq pos_mod_bound add_less_cancel_left)
  show ?thesis
  proof (cases "Suc ?k < n")
    case True
    with full have "int ?k * step + cs < total" by blast
    with lo hi step True show ?thesis by (intro exI [of _ ?k]) auto
  next
    case False
    then have "n - 1 \<le> ?k" by simp
    then have "int (n - 1) \<le> int ?k" by linarith
    then have "int (n - 1) * step \<le> int ?k * step"
      using step(1) by (intro mult_right_mono) simp_all
    with lo have "int (n - 1) * step \<le> t" by simp
    with t fin n show ?thesis by (intro exI [of _ "n - 1"]) auto
  qed
qed

lemma chunk_text_five_tokens:
  "chunk_text (Inr (mock_encoding [1, 2, 3, 4, 5])) ''abcde'' [] ''doc'' md0 3 1
     = Some (Inr five_token_chunks)"
  by (simp add: chunk_text_def mock_encoding_def chunk_loop.simps make_chunk_def
      build_page_map_def py_slice_def py_bound_def get_page_number_for_position_def
      snapshot_metadata_def str_int_def digit_char_def md0_def doc_chunk_def
      five_token_chunks_def)

lemma chunk_text_returns_iff:
  assumes enc: "encode enc text = Inr tokens"
  shows "(\<exists>chunks. chunk_text (Inr enc) text pages_data document_id md chunk_size overlap
                      = Some (Inr chunks))
         \<longleftrightarrow> (overlap < chunk_size \<or> int (length tokens) \<le> chunk_size \<or> tokens = [])"
    and "chunk_text (Inr enc) text pages_data document_id md chunk_size overlap = None
         \<longleftrightarrow> (chunk_size \<le> overlap \<and> chunk_size < int (length tokens) \<and> tokens \<noteq> [])"
proof -
  let ?loop = "chunk_loop enc tokens (build_page_map pages_data) document_id md chunk_size overlap 0 0 []"
  have ct: "chunk_text (Inr enc) text pages_data document_id md chunk_size overlap
              = map_option Inr ?loop"
    by (simp add: chunk_text_def enc)
  have stuck: "?loop = None"
    if "chunk_size \<le> overlap" "chunk_size < int (length tokens)" "tokens \<noteq> []"
    using that by (intro chunk_loop_diverges) simp_all
  have fine: "\<exists>chunks. ?loop = Some chunks"
    if "overlap < chunk_size \<or> int (length tokens) \<le> chunk_size \<or> tokens = []"
  proof (cases "overlap < chunk_size")
    case True
    from chunk_loop_steps [OF True, of enc tokens "build_page_map pages_data" document_id md 0 0 "[]"]
    show ?thesis by blast
  next
    case False
    with that have "int (length tokens) \<le> chunk_size \<or> tokens = []" by simp
    then show ?thesis by (subst chunk_loop.simps) auto
  qed
  show "(\<exists>chunks. chunk_text (Inr enc) text pages_data document_id md chunk_size overlap
                      = Some (Inr chunks))
         \<longleftrightarrow> (overlap < chunk_size \<or> int (length tokens) \<le> chunk_size \<or> tokens = [])"
    unfolding ct using stuck fine by (cases "overlap < chunk_size") force+
  show "chunk_text (Inr enc) text pages_data document_id md chunk_size overlap = None
         \<longleftrightarrow> (chunk_size \<le> overlap \<and> chunk_size < int (length tokens) \<and> tokens \<noteq> [])"
    unfolding ct using stuck fine by (cases "overlap < chunk_size") force+
qed


section \<open>Facts about the page map\<close>

lemma build_page_map_loop_append:
  "build_page_map_loop pages cur acc = acc @ build_page_map_loop pages cur []"
proof (induction pages arbitrary: cur acc)
  case Nil
  then show ?case by simp
next
  case (Cons pg rest)
  show ?case
    by (simp add: Let_def Cons.IH [of _ "acc @ _"] Cons.IH [of _ "[_]"])
qed

lemma build_page_map_loop_Cons:
  "build_page_map_loop (pg # rest) cur [] =
     \<lparr>start_pos = (if cur > 0 then cur + 2 else cur),
      end_pos = (if cur > 0 then cur + 2 else cur) + int (length (page_text_of pg)),
      page_number = page_number_of pg\<rparr>
     # build_page_map_loop rest ((if cur > 0 then cur + 2 else cur) + int (length (page_text_of pg))) []"
  using build_page_map_loop_append [of rest _ "[_]"] by (simp add: Let_def)

lemma build_page_map_loop_length:
  "length (build_page_map_loop pages cur []) = length pages"
  by (induction pages arbitrary: cur) (simp_all add: build_page_map_loop_Cons del: build_page_map_loop.simps(2))

lemma build_page_map_loop_numbers:
  "map page_number (build_page_map_loop pages cur []) = map page_number_of pages"
  by (induction pages arbitrary: cur) (simp_all add: build_page_map_loop_Cons del: build_page_map_loop.simps(2))

lemma build_page_map_loop_ordered:
  "0 \<le> cur \<Longrightarrow>
     sorted_wrt (\<lambda>a b. end_pos a \<le> start_pos b) (build_page_map_loop pages cur [])
     \<and> (\<forall>s \<in> set (build_page_map_loop pages cur []). cur \<le> start_pos s \<and> start_pos s \<le> end_pos s)"
proof (induction pages arbitrary: cur)
  case Nil
  then show ?case by simp
next
  case (Cons pg rest)
  let ?c = "if cur > 0 then cur + 2 else cur"
  let ?e = "?c + int (length (page_text_of pg))"
  have ce: "cur \<le> ?c" "?c \<le> ?e" by simp_all
  with Cons.prems have "0 \<le> ?e" by linarith
  from Cons.IH [OF this] ce show ?case
    by (simp only: build_page_map_loop_Cons) fastforce
qed

lemma scan_page_map_None:
  "scan_page_map c pm = None \<longleftrightarrow> (\<forall>s \<in> set pm. \<not> (start_pos s \<le> c \<and> c < end_pos s))"
  by (induction pm) auto

lemma scan_page_map_first:
  "i < length pm \<Longrightarrow> start_pos (pm ! i) \<le> c \<and> c < end_pos (pm ! i) \<Longrightarrow>
     \<forall>j<i. \<not> (start_pos (pm ! j) \<le> c \<and> c < end_pos (pm ! j)) \<Longrightarrow>
     scan_page_map c pm = Some (page_number (pm ! i))"
proof (induction pm arbitrary: i)
  case Nil
  then show ?case by simp
next
  case (Cons p ps)
  show ?case
  proof (cases i)
    case 0
    with Cons.prems show ?thesis by simp
  next
    case (Suc k)
    with Cons.prems(3) have no0: "\<not> (start_pos p \<le> c \<and> c < end_pos p)" by fastforce
    have "\<forall>j<k. \<not> (start_pos (ps ! j) \<le> c \<and> c < end_pos (ps ! j))"
      using Cons.prems(3) Suc by fastforce
    with Cons.IH [of k] Cons.prems(1,2) Suc no0 show ?thesis by auto
  qed
qed

lemma build_page_map_two:
  "page_text_of p1 \<noteq> [] \<Longrightarrow>
   build_page_map [p1, p2] =
     [\<lparr>start_pos = 0, end_pos = int (length (page_text_of p1)), page_number = page_number_of p1\<rparr>,
      \<lparr>start_pos = int (length (page_text_of p1)) + 2,
       end_pos = int (length (page_text_of p1)) + 2 + int (length (page_text_of p2)),
       page_number = page_number_of p2\<rparr>]"
  by (simp add: build_page_map_def build_page_map_loop_Cons del: build_page_map_loop.simps(2))

lemma build_page_map_loop_contiguous:
  "0 < cur \<Longrightarrow>
     (\<forall>i. Suc i < length pages \<longrightarrow>
        end_pos (build_page_map_loop pages cur [] ! i) + 2
          = start_pos (build_page_map_loop pages cur [] ! Suc i))
   \<and> (pages \<noteq> [] \<longrightarrow>
        start_pos (hd (build_page_map_loop pages cur [])) = cur + 2
      \<and> end_pos (last (build_page_map_loop pages cur []))
          = cur + 2 + int (length (py_join page_sep (map page_text_of pages))))"
proof (induction pages arbitrary: cur)
  case Nil
  then show ?case by simp
next
  case (Cons pg rest)
  let ?e = "cur + 2 + int (length (page_text_of pg))"
  let ?L = "build_page_map_loop rest ?e []"
  have unfold: "build_page_map_loop (pg # rest) cur [] =
      \<lparr>start_pos = cur + 2, end_pos = ?e, page_number = page_number_of pg\<rparr> # ?L"
    using Cons.prems by (simp add: build_page_map_loop_Cons del: build_page_map_loop.simps(2))
  have e: "0 < ?e" using Cons.prems by simp
  note IH = Cons.IH [OF e]
  have len: "length ?L = length rest" by (rule build_page_map_loop_length)
  show ?case
  proof (cases rest)
    case Nil
    with unfold show ?thesis by (simp del: build_page_map_loop.simps(2))
  next
    case (Cons pg' rest')
    then have ne: "rest \<noteq> []" "?L \<noteq> []" using len by auto
    from IH ne have hd: "start_pos (?L ! 0) = ?e + 2"
      by (simp add: hd_conv_nth)
    from IH ne have lst: "end_pos (last ?L)
          = ?e + 2 + int (length (py_join page_sep (map page_text_of rest)))"
      by simp
    have a: "end_pos ((\<lparr>start_pos = cur + 2, end_pos = ?e, page_number = page_number_of pg\<rparr> # ?L) ! i) + 2
          = start_pos ((\<lparr>start_pos = cur + 2, end_pos = ?e, page_number = page_number_of pg\<rparr> # ?L) ! Suc i)"
      if "Suc i < length (pg # rest)" for i
    proof (cases i)
      case 0
      with hd show ?thesis by simp
    next
      case (Suc k)
      with that have "Suc k < length rest" by simp
      with IH Suc show ?thesis by simp
    qed
    have join: "length (py_join page_sep (map page_text_of (pg # rest)))
        = length (page_text_of pg) + 2 + length (py_join page_sep (map page_text_of rest))"
      using Cons by (simp add: page_sep_def)
    have b: "end_pos (last (\<lparr>start_pos = cur + 2, end_pos = ?e, page_number = page_number_of pg\<rparr> # ?L))
          = cur + 2 + int (length (py_join page_sep (map page_text_of (pg # rest))))"
      using ne lst join by simp
    from a b show ?thesis unfolding unfold by simp
  qed
qed

lemma build_page_map_contiguous:
  assumes first: "page_text_of pg \<noteq> []"
  shows "(\<forall>i. Suc i < length (pg # rest) \<longrightarrow>
            end_pos (build_page_map (pg # rest) ! i) + 2
              = start_pos (build_page_map (pg # rest) ! Suc i))
       \<and> end_pos (last (build_page_map (pg # rest)))
            = int (length (py_join page_sep (map page_text_of (pg # rest))))"
proof -
  let ?e = "int (length (page_text_of pg))"
  let ?L = "build_page_map_loop rest ?e []"
  have unfold: "build_page_map (pg # rest) =
      \<lparr>start_pos = 0, end_pos = ?e, page_number = page_number_of pg\<rparr> # ?L"
    by (simp add: build_page_map_def build_page_map_loop_Cons del: build_page_map_loop.simps(2))
  have e: "0 < ?e" using first by simp
  note R = build_page_map_loop_contiguous [OF e, of rest]
  have len: "length ?L = length rest" by (rule build_page_map_loop_length)
  show ?thesis
  proof (cases rest)
    case Nil
    with unfold show ?thesis by simp
  next
    case (Cons pg' rest')
    then have ne: "rest \<noteq> []" "?L \<noteq> []" using len by auto
    from R ne have hd: "start_pos (?L ! 0) = ?e + 2"
      by (simp add: hd_conv_nth)
    from R ne have lst: "end_pos (last ?L)
          = ?e + 2 + int (length (py_join page_sep (map page_text_of rest)))"
      by simp
    have a: "end_pos ((\<lparr>start_pos = 0, end_pos = ?e, page_number = page_number_of pg\<rparr> # ?L) ! i) + 2
          = start_pos ((\<lparr>start_pos = 0, end_pos = ?e, page_number = page_number_of pg\<rparr> # ?L) ! Suc i)"
      if "Suc i < length (pg # rest)" for i
    proof (cases i)
      case 0
      with hd show ?thesis by simp
    next
      case (Suc k)
      with that have "Suc k < length rest" by simp
      with R Suc show ?thesis by simp
    qed
    have join: "length (py_join page_sep (map page_text_of (pg # rest)))
        = length (page_text_of pg) + 2 + length (py_join page_sep (map page_text_of rest))"
      using Cons by (simp add: page_sep_def)
    have b: "end_pos (last (\<lparr>start_pos = 0, end_pos = ?e, page_number = page_number_of pg\<rparr> # ?L))
          = int (length (py_join page_sep (map page_text_of (pg # rest))))"
      using ne lst join by simp
    from a b show ?thesis unfolding unfold by simp
  qed
qed


section \<open>The windows of a valid configuration\<close>

text \<open>
  C1 (overlap law). For a valid configuration (\<open>0 \<le> overlap < chunk_size\<close>) and more
  tokens than \<open>chunk_size\<close>, \<open>chunk_text\<close> returns at least two chunks, and for every
  consecutive pair the next chunk starts at the previous start plus
  \<open>chunk_size - overlap\<close> and the previous chunk's \<open>endToken\<close> minus the next chunk's
  \<open>startToken\<close> is \<open>overlap\<close>. The difference is exactly \<open>overlap\<close> on the final pair
  too: a chunk that has a successor is never truncated.
\<close>

theorem chunk_text_overlap_law:
  assumes enc: "encode enc text = Inr tokens"
    and ov0: "0 \<le> overlap" and step: "overlap < chunk_size"
    and big: "chunk_size < int (length tokens)"
  shows "\<exists>chunks. chunk_text (Inr enc) text pages_data document_id md chunk_size overlap
                     = Some (Inr chunks)
           \<and> 2 \<le> length chunks
           \<and> (\<forall>i. Suc i < length chunks \<longrightarrow>
                  startToken (chunks ! Suc i) = startToken (chunks ! i) + chunk_size - overlap
                \<and> endToken (chunks ! i) - startToken (chunks ! Suc i) = overlap)"
proof -
  let ?mk = "\<lambda>i. make_chunk enc tokens (build_page_map pages_data) document_id md chunk_size
                    (int i * (chunk_size - overlap)) (int i)"
  from chunk_text_windows [OF enc step, of pages_data document_id md]
  obtain n where res: "chunk_text (Inr enc) text pages_data document_id md chunk_size overlap
                     = Some (Inr (map ?mk [0..<n]))"
    and n0: "n = 0 \<longleftrightarrow> tokens = []"
    and full: "\<forall>i. Suc i < n \<longrightarrow> int i * (chunk_size - overlap) + chunk_size < int (length tokens)"
    and fin: "0 < n \<longrightarrow> int (length tokens) \<le> int (n - 1) * (chunk_size - overlap) + chunk_size
                    \<or> int (length tokens) \<le> int n * (chunk_size - overlap)"
    by blast
  have "n \<noteq> 0" using n0 big ov0 step by auto
  moreover have "n \<noteq> 1" using fin big ov0 by auto
  ultimately have two: "2 \<le> length (map ?mk [0..<n])" by simp
  have pair: "startToken (map ?mk [0..<n] ! Suc i) = startToken (map ?mk [0..<n] ! i) + chunk_size - overlap
                \<and> endToken (map ?mk [0..<n] ! i) - startToken (map ?mk [0..<n] ! Suc i) = overlap"
    if "Suc i < length (map ?mk [0..<n])" for i
  proof -
    from that have i: "Suc i < n" by simp
    with full have "int i * (chunk_size - overlap) + chunk_size < int (length tokens)" by blast
    with i show ?thesis by (simp add: algebra_simps)
  qed
  from res two pair show ?thesis by blast
qed

text \<open>The overlap law at seven tokens, windows of three, overlap one.\<close>

theorem chunk_text_overlap_law_witness:
  "encode (mock_encoding [1, 2, 3, 4, 5, 6, 7]) ''abcdefg'' = Inr [1, 2, 3, 4, 5, 6, 7]
   \<and> (0::int) \<le> 1 \<and> (1::int) < 3 \<and> 3 < int (length [1, 2, 3, 4, 5, 6, 7 :: int])
   \<and> (\<exists>chunks. chunk_text (Inr (mock_encoding [1, 2, 3, 4, 5, 6, 7])) ''abcdefg'' [] ''doc'' md0 3 1
                     = Some (Inr chunks)
           \<and> 2 \<le> length chunks
           \<and> (\<forall>i. Suc i < length chunks \<longrightarrow>
                  startToken (chunks ! Suc i) = startToken (chunks ! i) + 3 - 1
                \<and> endToken (chunks ! i) - startToken (chunks ! Suc i) = 1))"
proof -
  have e: "encode (mock_encoding [1, 2, 3, 4, 5, 6, 7]) ''abcdefg'' = Inr [1, 2, 3, 4, 5, 6, 7]"
    by (simp add: mock_encoding_def)
  have a: "(0::int) \<le> 1" and b: "(1::int) < 3" and c: "3 < int (length [1, 2, 3, 4, 5, 6, 7 :: int])"
    by simp_all
  from chunk_text_overlap_law [OF e a b c, of "[]" "''doc''" md0] e a b c
  show ?thesis by simp
qed

text \<open>
  C2 (bounded size). For a valid configuration every chunk's \<open>tokenCount\<close> is
  \<open>endToken - startToken\<close>, is at most \<open>chunk_size\<close>, and equals \<open>chunk_size\<close> for every
  chunk but the last.
\<close>

theorem chunk_text_bounded_size:
  assumes enc: "encode enc text = Inr tokens"
    and ov0: "0 \<le> overlap" and step: "overlap < chunk_size"
  shows "\<exists>chunks. chunk_text (Inr enc) text pages_data document_id md chunk_size overlap
                     = Some (Inr chunks)
           \<and> (\<forall>i<length chunks.
                  tokenCount (chunks ! i) = endToken (chunks ! i) - startToken (chunks ! i)
                \<and> tokenCount (chunks ! i) \<le> chunk_size
                \<and> (Suc i < length chunks \<longrightarrow> tokenCount (chunks ! i) = chunk_size))"
proof -
  let ?mk = "\<lambda>i. make_chunk enc tokens (build_page_map pages_data) document_id md chunk_size
                    (int i * (chunk_size - overlap)) (int i)"
  from chunk_text_windows [OF enc step, of pages_data document_id md]
  obtain n where res: "chunk_text (Inr enc) text pages_data document_id md chunk_size overlap
                     = Some (Inr (map ?mk [0..<n]))"
    and full: "\<forall>i. Suc i < n \<longrightarrow> int i * (chunk_size - overlap) + chunk_size < int (length tokens)"
    and inside: "\<forall>i. i < n \<longrightarrow> int i * (chunk_size - overlap) < int (length tokens)"
    by blast
  have each: "tokenCount (map ?mk [0..<n] ! i)
                  = endToken (map ?mk [0..<n] ! i) - startToken (map ?mk [0..<n] ! i)
                \<and> tokenCount (map ?mk [0..<n] ! i) \<le> chunk_size
                \<and> (Suc i < length (map ?mk [0..<n]) \<longrightarrow> tokenCount (map ?mk [0..<n] ! i) = chunk_size)"
    if "i < length (map ?mk [0..<n])" for i
  proof -
    let ?s = "int i * (chunk_size - overlap)"
    let ?e = "min (?s + chunk_size) (int (length tokens))"
    from that have i: "i < n" by simp
    have s0: "0 \<le> ?s" using step by simp
    have s1: "?s < int (length tokens)" using inside i by blast
    have se: "?s \<le> ?e" using s1 step ov0 by simp
    have cnt: "int (length (py_slice tokens ?s ?e)) = ?e - ?s"
      by (rule py_slice_length [OF s0 se]) simp
    have "?e = ?s + chunk_size" if "Suc i < n"
    proof -
      from full that have "?s + chunk_size < int (length tokens)" by blast
      then show ?thesis by simp
    qed
    note last_full = this
    have nth: "map ?mk [0..<n] ! i = ?mk i" using i by simp
    have tc: "tokenCount (?mk i) = ?e - ?s" using cnt by simp
    have le: "?e - ?s \<le> chunk_size" by simp
    have "Suc i < n \<longrightarrow> ?e - ?s = chunk_size" using last_full by simp
    with tc le show ?thesis unfolding nth by simp
  qed
  from res each show ?thesis by blast
qed

text \<open>Bounded size at eight tokens, windows of three, overlap one.\<close>

theorem chunk_text_bounded_size_witness:
  "encode (mock_encoding [1, 2, 3, 4, 5, 6, 7, 8]) ''abcdefgh'' = Inr [1, 2, 3, 4, 5, 6, 7, 8]
   \<and> (0::int) \<le> 1 \<and> (1::int) < 3
   \<and> (\<exists>chunks. chunk_text (Inr (mock_encoding [1, 2, 3, 4, 5, 6, 7, 8])) ''abcdefgh'' [] ''doc'' md0 3 1
                     = Some (Inr chunks)
           \<and> (\<forall>i<length chunks.
                  tokenCount (chunks ! i) = endToken (chunks ! i) - startToken (chunks ! i)
                \<and> tokenCount (chunks ! i) \<le> 3
                \<and> (Suc i < length chunks \<longrightarrow> tokenCount (chunks ! i) = 3)))"
proof -
  have e: "encode (mock_encoding [1, 2, 3, 4, 5, 6, 7, 8]) ''abcdefgh'' = Inr [1, 2, 3, 4, 5, 6, 7, 8]"
    by (simp add: mock_encoding_def)
  have a: "(0::int) \<le> 1" and b: "(1::int) < 3"
    by simp_all
  from chunk_text_bounded_size [OF e a b, of "[]" "''doc''" md0] e a b
  show ?thesis by simp
qed

text \<open>
  C3 (coverage). For a valid configuration and at least one token, \<open>chunk_text\<close> returns a
  non-empty chunk list whose first chunk starts at token 0, whose last chunk ends at the
  number of tokens, and in which every chunk starts no later than the previous chunk's end;
  hence every token position lies in the range of some chunk.
\<close>

theorem chunk_text_coverage:
  assumes enc: "encode enc text = Inr tokens"
    and ov0: "0 \<le> overlap" and step: "overlap < chunk_size"
    and pos: "0 < length tokens"
  shows "\<exists>chunks. chunk_text (Inr enc) text pages_data document_id md chunk_size overlap
                     = Some (Inr chunks)
           \<and> chunks \<noteq> []
           \<and> startToken (hd chunks) = 0
           \<and> endToken (last chunks) = int (length tokens)
           \<and> (\<forall>i. Suc i < length chunks \<longrightarrow>
                  startToken (chunks ! Suc i) \<le> endToken (chunks ! i))
           \<and> (\<forall>t. 0 \<le> t \<and> t < int (length tokens) \<longrightarrow>
                  (\<exists>i<length chunks. startToken (chunks ! i) \<le> t \<and> t < endToken (chunks ! i)))"
proof -
  let ?step = "chunk_size - overlap"
  let ?total = "int (length tokens)"
  let ?mk = "\<lambda>i. make_chunk enc tokens (build_page_map pages_data) document_id md chunk_size
                    (int i * ?step) (int i)"
  from chunk_text_windows [OF enc step, of pages_data document_id md]
  obtain n where res: "chunk_text (Inr enc) text pages_data document_id md chunk_size overlap
                     = Some (Inr (map ?mk [0..<n]))"
    and n0: "n = 0 \<longleftrightarrow> tokens = []"
    and full: "\<forall>i. Suc i < n \<longrightarrow> int i * ?step + chunk_size < ?total"
    and fin: "0 < n \<longrightarrow> ?total \<le> int (n - 1) * ?step + chunk_size \<or> ?total \<le> int n * ?step"
    by blast
  let ?cs = "map ?mk [0..<n]"
  have n: "0 < n" using n0 pos by simp
  have nth: "?cs ! i = ?mk i" if "i < n" for i using that by simp
  have "int n * ?step = int (n - 1) * ?step + ?step"
    using n by (simp add: algebra_simps of_nat_diff)
  with fin n ov0 have fin': "?total \<le> int (n - 1) * ?step + chunk_size" by linarith
  have ne: "?cs \<noteq> []" using n by simp
  have first: "startToken (hd ?cs) = 0"
    using n by (simp add: hd_conv_nth nth)
  have lst: "endToken (last ?cs) = ?total"
    using n fin' by (simp add: last_conv_nth nth)
  have link: "startToken (?cs ! Suc i) \<le> endToken (?cs ! i)" if "Suc i < length ?cs" for i
  proof -
    from that have i: "Suc i < n" by simp
    with full have "int i * ?step + chunk_size < ?total" by blast
    with i ov0 show ?thesis by (simp add: nth algebra_simps)
  qed
  have cover: "\<exists>i<length ?cs. startToken (?cs ! i) \<le> t \<and> t < endToken (?cs ! i)"
    if "0 \<le> t \<and> t < ?total" for t
  proof -
    from that have t: "0 \<le> t" "t < ?total" by simp_all
    have s: "0 < ?step" "?step \<le> chunk_size" using step ov0 by simp_all
    from covered_by_windows [OF s t n full fin']
    obtain i where "i < n" "int i * ?step \<le> t" "t < min (int i * ?step + chunk_size) ?total"
      by blast
    then show ?thesis by (intro exI [of _ i]) (simp add: nth)
  qed
  from res ne first lst link cover show ?thesis by blast
qed

text \<open>Coverage at eight tokens, windows of three, overlap one.\<close>

theorem chunk_text_coverage_witness:
  "encode (mock_encoding [1, 2, 3, 4, 5, 6, 7, 8]) ''abcdefgh'' = Inr [1, 2, 3, 4, 5, 6, 7, 8]
   \<and> (0::int) \<le> 1 \<and> (1::int) < 3 \<and> 0 < length [1, 2, 3, 4, 5, 6, 7, 8 :: int]
   \<and> (\<exists>chunks. chunk_text (Inr (mock_encoding [1, 2, 3, 4, 5, 6, 7, 8])) ''abcdefgh'' [] ''doc'' md0 3 1
                     = Some (Inr chunks)
           \<and> chunks \<noteq> []
           \<and> startToken (hd chunks) = 0
           \<and> endToken (last chunks) = int (length [1, 2, 3, 4, 5, 6, 7, 8 :: int])
           \<and> (\<forall>i. Suc i < length chunks \<longrightarrow>
                  startToken (chunks ! Suc i) \<le> endToken (chunks ! i))
           \<and> (\<forall>t. 0 \<le> t \<and> t < int (length [1, 2, 3, 4, 5, 6, 7, 8 :: int]) \<longrightarrow>
                  (\<exists>i<length chunks. startToken (chunks ! i) \<le> t \<and> t < endToken (chunks ! i))))"
proof -
  have e: "encode (mock_encoding [1, 2, 3, 4, 5, 6, 7, 8]) ''abcdefgh'' = Inr [1, 2, 3, 4, 5, 6, 7, 8]"
    by (simp add: mock_encoding_def)
  have a: "(0::int) \<le> 1" and b: "(1::int) < 3" and c: "0 < length [1, 2, 3, 4, 5, 6, 7, 8 :: int]"
    by simp_all
  from chunk_text_coverage [OF e a b c, of "[]" "''doc''" md0] e a b c
  show ?thesis by blast
qed


section \<open>Empty input and chunk identity\<close>

text \<open>
  C8 (empty input). When the text encodes to zero tokens, \<open>chunk_text\<close> returns the empty
  chunk list, for every configuration: it neither fails nor loops.
\<close>

theorem chunk_text_empty_input:
  assumes "encode enc text = Inr []"
  shows "chunk_text (Inr enc) text pages_data document_id md chunk_size overlap = Some (Inr [])"
  using assms by (simp add: chunk_text_def chunk_loop.simps)

text \<open>The empty text under the default configuration, as in the test suite.\<close>

theorem chunk_text_empty_input_witness:
  "encode (mock_encoding []) '''' = Inr []
   \<and> chunk_text (Inr (mock_encoding [])) '''' [\<lparr>p_pageNumber = Some 1, p_text = Some ''''\<rparr>]
        ''doc'' md0 512 50 = Some (Inr [])"
proof -
  have e: "encode (mock_encoding []) '''' = Inr []"
    by (simp add: mock_encoding_def)
  from chunk_text_empty_input [OF e] e show ?thesis by blast
qed

text \<open>
  C9 (index integrity). When the tokenizer succeeds and the loop ends (the step
  \<open>chunk_size - overlap\<close> is positive, or the tokens fit one window, or there are none),
  \<open>chunk_text\<close> returns a chunk list in which the chunk at position \<open>i\<close> has
  \<open>chunkIndex = i\<close> and its \<open>chunkId\<close> is the document id, then \<open>#chunk#\<close>, then \<open>i\<close> in
  decimal. Moreover, whatever the input, every chunk list that \<open>chunk_text\<close> returns has
  this property.
\<close>

theorem chunk_text_index_integrity:
  fixes get_encoding :: "'e + 'e encoding" and enc :: "'e encoding"
  shows
  "(encode enc text = Inr tokens
      \<and> (overlap < chunk_size \<or> int (length tokens) \<le> chunk_size \<or> tokens = [])
      \<longrightarrow> (\<exists>chunks. chunk_text (Inr enc) text pages_data document_id md chunk_size overlap
                         = Some (Inr chunks)
                \<and> (\<forall>i<length chunks.
                       chunkIndex (chunks ! i) = int i
                     \<and> chunkId (chunks ! i) = document_id @ ''#chunk#'' @ str_int (int i))))
   \<and> (\<forall>chunks. chunk_text get_encoding text pages_data document_id md chunk_size overlap
                   = Some (Inr chunks)
         \<longrightarrow> (\<forall>i<length chunks.
                 chunkIndex (chunks ! i) = int i
               \<and> chunkId (chunks ! i) = document_id @ ''#chunk#'' @ str_int (int i)))"
proof -
  have partial: "\<forall>i<length chunks.
           chunkIndex (chunks ! i) = int i
         \<and> chunkId (chunks ! i) = document_id @ ''#chunk#'' @ str_int (int i)"
    if ret: "chunk_text ge text pages_data document_id md chunk_size overlap = Some (Inr chunks)"
    for ge :: "'e + 'e encoding" and chunks
  proof -
    from ret obtain enc' :: "'e encoding" and toks where
      loop: "chunk_loop enc' toks (build_page_map pages_data) document_id md chunk_size overlap 0 0 []
               = Some chunks"
      by (auto simp: chunk_text_def split: sum.splits)
    from chunk_loop_indices [OF loop] show ?thesis by simp
  qed
  have total: "\<exists>chunks. chunk_text (Inr enc) text pages_data document_id md chunk_size overlap
                         = Some (Inr chunks)
                \<and> (\<forall>i<length chunks.
                       chunkIndex (chunks ! i) = int i
                     \<and> chunkId (chunks ! i) = document_id @ ''#chunk#'' @ str_int (int i))"
    if enc: "encode enc text = Inr tokens"
      and fin: "overlap < chunk_size \<or> int (length tokens) \<le> chunk_size \<or> tokens = []"
  proof -
    from chunk_text_returns_iff(1) [OF enc, of pages_data document_id md chunk_size overlap] fin
    obtain chunks where
      ret: "chunk_text (Inr enc) text pages_data document_id md chunk_size overlap
              = Some (Inr chunks)"
      by blast
    from partial [OF ret] ret show ?thesis by blast
  qed
  from partial total show ?thesis by blast
qed

text \<open>
  Index integrity at five tokens, windows of three, overlap one: the call returns, and the
  two chunks it returns carry the indices 0 and 1.
\<close>

theorem chunk_text_index_integrity_witness:
  "encode (mock_encoding [1, 2, 3, 4, 5]) ''abcde'' = Inr [1, 2, 3, 4, 5]
   \<and> ((1::int) < 3 \<or> int (length [1, 2, 3, 4, 5 :: int]) \<le> 3 \<or> [1, 2, 3, 4, 5 :: int] = [])
   \<and> (\<exists>chunks. chunk_text (Inr (mock_encoding [1, 2, 3, 4, 5])) ''abcde'' [] ''doc'' md0 3 1
                   = Some (Inr chunks)
          \<and> (\<forall>i<length chunks.
                 chunkIndex (chunks ! i) = int i
               \<and> chunkId (chunks ! i) = ''doc'' @ ''#chunk#'' @ str_int (int i)))
   \<and> chunk_text (Inr (mock_encoding [1, 2, 3, 4, 5])) ''abcde'' [] ''doc'' md0 3 1
       = Some (Inr five_token_chunks)
   \<and> length five_token_chunks = 2
   \<and> chunkIndex (five_token_chunks ! 0) = int 0
   \<and> chunkId (five_token_chunks ! 0) = ''doc'' @ ''#chunk#'' @ str_int (int 0)
   \<and> chunkIndex (five_token_chunks ! 1) = int 1
   \<and> chunkId (five_token_chunks ! 1) = ''doc'' @ ''#chunk#'' @ str_int (int 1)"
proof -
  have e: "encode (mock_encoding [1, 2, 3, 4, 5]) ''abcde'' = Inr [1, 2, 3, 4, 5]"
    by (simp add: mock_encoding_def)
  have fin: "(1::int) < 3 \<or> int (length [1, 2, 3, 4, 5 :: int]) \<le> 3 \<or> [1, 2, 3, 4, 5 :: int] = []"
    by simp
  note inst = chunk_text_index_integrity
    [of "mock_encoding [1, 2, 3, 4, 5]" "''abcde''" "[1, 2, 3, 4, 5]" 1 3 "[]" "''doc''" md0
        "Inr (mock_encoding [1, 2, 3, 4, 5])"]
  from inst e fin
  have total: "\<exists>chunks. chunk_text (Inr (mock_encoding [1, 2, 3, 4, 5])) ''abcde'' [] ''doc'' md0 3 1
                   = Some (Inr chunks)
          \<and> (\<forall>i<length chunks.
                 chunkIndex (chunks ! i) = int i
               \<and> chunkId (chunks ! i) = ''doc'' @ ''#chunk#'' @ str_int (int i))"
    by blast
  have len: "length five_token_chunks = 2"
    by (simp add: five_token_chunks_def)
  from inst chunk_text_five_tokens
  have "\<forall>i<length five_token_chunks.
           chunkIndex (five_token_chunks ! i) = int i
         \<and> chunkId (five_token_chunks ! i) = ''doc'' @ ''#chunk#'' @ str_int (int i)"
    by blast
  then have "chunkIndex (five_token_chunks ! 0) = int 0
         \<and> chunkId (five_token_chunks ! 0) = ''doc'' @ ''#chunk#'' @ str_int (int 0)"
    and "chunkIndex (five_token_chunks ! 1) = int 1
         \<and> chunkId (five_token_chunks ! 1) = ''doc'' @ ''#chunk#'' @ str_int (int 1)"
    using len by simp_all
  with e fin total chunk_text_five_tokens len show ?thesis by blast
qed

section \<open>Configurations outside the contract\<close>

text \<open>
  C4 as stated (\<open>chunk_text\<close> fails with \<open>InvalidConfiguration\<close> whenever
  \<open>overlap \<ge> chunk_size\<close> or \<open>chunk_size \<le> 0\<close>) does not hold: with \<open>chunk_size = 5\<close>,
  \<open>overlap = 5\<close> and three tokens the call returns one chunk and raises nothing.
\<close>

theorem chunk_text_invalid_configuration_returns:
  "(5::int) \<ge> 5
   \<and> chunk_text (Inr (mock_encoding [1, 2, 3])) ''abc'' [] ''doc'' md0 5 5
       = Some (Inr [doc_chunk ''doc#chunk#0'' ''ttt'' 0 3 0 3])"
  by (simp add: chunk_text_def mock_encoding_def chunk_loop.simps make_chunk_def
      build_page_map_def py_slice_def py_bound_def get_page_number_for_position_def
      snapshot_metadata_def str_int_def digit_char_def md0_def doc_chunk_def)

text \<open>
  C4, amended. \<open>chunk_text\<close> does not check its configuration: the only errors it raises are
  those of the tokenizer (loading the encoding, or encoding the text). When
  \<open>overlap \<ge> chunk_size\<close> or \<open>chunk_size \<le> 0\<close> and the tokenizer succeeds, the call either
  never returns (exactly when \<open>overlap \<ge> chunk_size\<close> and there are more tokens than
  \<open>max chunk_size 0\<close>), so that no partial chunk list is returned, or returns a chunk list
  normally.
\<close>

theorem chunk_text_no_configuration_check:
  fixes get_encoding :: "'e + 'e encoding" and enc :: "'e encoding"
  shows
  "(chunk_text get_encoding text pages_data document_id md chunk_size overlap = Some (Inl err)
      \<longleftrightarrow> get_encoding = Inl err
          \<or> (\<exists>enc'. get_encoding = Inr enc' \<and> encode enc' text = Inl err))
   \<and> (encode enc text = Inr tokens \<and> (chunk_size \<le> overlap \<or> chunk_size \<le> 0) \<longrightarrow>
        (if chunk_size \<le> overlap \<and> chunk_size < int (length tokens) \<and> tokens \<noteq> []
         then chunk_text (Inr enc) text pages_data document_id md chunk_size overlap = None
         else \<exists>chunks. chunk_text (Inr enc) text pages_data document_id md chunk_size overlap
                         = Some (Inr chunks)))"
proof (intro conjI impI)
  show "chunk_text get_encoding text pages_data document_id md chunk_size overlap = Some (Inl err)
      \<longleftrightarrow> get_encoding = Inl err
          \<or> (\<exists>enc'. get_encoding = Inr enc' \<and> encode enc' text = Inl err)"
    by (auto simp: chunk_text_def split: sum.splits)
next
  assume "encode enc text = Inr tokens \<and> (chunk_size \<le> overlap \<or> chunk_size \<le> 0)"
  then have enc: "encode enc text = Inr tokens" by simp
  show "if chunk_size \<le> overlap \<and> chunk_size < int (length tokens) \<and> tokens \<noteq> []
         then chunk_text (Inr enc) text pages_data document_id md chunk_size overlap = None
         else \<exists>chunks. chunk_text (Inr enc) text pages_data document_id md chunk_size overlap
                         = Some (Inr chunks)"
    using chunk_text_returns_iff [OF enc, of pages_data document_id md chunk_size overlap]
    by auto
qed

text \<open>
  Two runs on three tokens with \<open>overlap = chunk_size\<close>: windows of five return, windows of
  two never do.
\<close>

theorem chunk_text_no_configuration_check_witness:
  "encode (mock_encoding [1, 2, 3]) ''abc'' = Inr [1, 2, 3] \<and> ((5::int) \<le> 5 \<or> (5::int) \<le> 0)
   \<and> (\<exists>chunks. chunk_text (Inr (mock_encoding [1, 2, 3])) ''abc'' [] ''doc'' md0 5 5
                   = Some (Inr chunks))
   \<and> encode (mock_encoding [1, 2, 3]) ''abc'' = Inr [1, 2, 3] \<and> ((2::int) \<le> 2 \<or> (2::int) \<le> 0)
   \<and> chunk_text (Inr (mock_encoding [1, 2, 3])) ''abc'' [] ''doc'' md0 2 2 = None"
proof -
  have e: "encode (mock_encoding [1, 2, 3]) ''abc'' = Inr [1, 2, 3]"
    by (simp add: mock_encoding_def)
  from chunk_text_no_configuration_check
         [of "Inr (mock_encoding [1, 2, 3])" "''abc''" "[]" "''doc''" md0 5 5 "()"
             "mock_encoding [1, 2, 3]" "[1, 2, 3]"] e
  have a: "\<exists>chunks. chunk_text (Inr (mock_encoding [1, 2, 3])) ''abc'' [] ''doc'' md0 5 5
                   = Some (Inr chunks)"
    by simp
  from chunk_text_no_configuration_check
         [of "Inr (mock_encoding [1, 2, 3])" "''abc''" "[]" "''doc''" md0 2 2 "()"
             "mock_encoding [1, 2, 3]" "[1, 2, 3]"] e
  have b: "chunk_text (Inr (mock_encoding [1, 2, 3])) ''abc'' [] ''doc'' md0 2 2 = None"
    by simp
  from e a b show ?thesis by simp
qed


section \<open>Termination\<close>

text \<open>
  C5 (termination). Under the generator's contract, where the step \<open>chunk_size - overlap\<close>
  is positive, the loop of \<open>chunk_text\<close> ends and the call returns a chunk list, however
  small the step is compared with the number of tokens. In particular, for
  \<open>chunk_size = 50\<close>, \<open>overlap = 49\<close> and more than 50 tokens it returns
  \<open>total_tokens - 50 + 1\<close> chunks.
\<close>

theorem chunk_text_terminates:
  assumes enc: "encode enc text = Inr tokens"
    and step: "overlap < chunk_size"
  shows "(\<exists>chunks. chunk_text (Inr enc) text pages_data document_id md chunk_size overlap
                       = Some (Inr chunks))
       \<and> (chunk_size = 50 \<and> overlap = 49 \<and> 50 < int (length tokens) \<longrightarrow>
            (\<exists>chunks. chunk_text (Inr enc) text pages_data document_id md chunk_size overlap
                         = Some (Inr chunks)
                     \<and> int (length chunks) = int (length tokens) - 50 + 1))"
proof (intro conjI impI)
  show "\<exists>chunks. chunk_text (Inr enc) text pages_data document_id md chunk_size overlap
                       = Some (Inr chunks)"
    using chunk_text_returns_iff(1) [OF enc, of pages_data document_id md chunk_size overlap] step
    by blast
next
  assume "chunk_size = 50 \<and> overlap = 49 \<and> 50 < int (length tokens)"
  then have cs: "chunk_size = 50" and ov: "overlap = 49" and big: "50 < int (length tokens)"
    by simp_all
  let ?mk = "\<lambda>i. make_chunk enc tokens (build_page_map pages_data) document_id md chunk_size
                    (int i * (chunk_size - overlap)) (int i)"
  from chunk_text_windows [OF enc step, of pages_data document_id md]
  obtain n where res: "chunk_text (Inr enc) text pages_data document_id md chunk_size overlap
                     = Some (Inr (map ?mk [0..<n]))"
    and n0: "n = 0 \<longleftrightarrow> tokens = []"
    and full: "\<forall>i. Suc i < n \<longrightarrow> int i * (chunk_size - overlap) + chunk_size < int (length tokens)"
    and fin: "0 < n \<longrightarrow> int (length tokens) \<le> int (n - 1) * (chunk_size - overlap) + chunk_size
                    \<or> int (length tokens) \<le> int n * (chunk_size - overlap)"
    by blast
  have n: "0 < n" using n0 big by auto
  have n1: "n \<noteq> 1" using fin big cs ov by auto
  with n have n2: "Suc (n - 2) < n" by simp
  from full n2 have up: "int (n - 2) + 50 < int (length tokens)"
    using cs ov by fastforce
  from fin n have "int (length tokens) \<le> int (n - 1) + 50 \<or> int (length tokens) \<le> int n"
    using cs ov by simp
  with up n n1 have "int n = int (length tokens) - 50 + 1" by linarith
  with res show "\<exists>chunks. chunk_text (Inr enc) text pages_data document_id md chunk_size overlap
                         = Some (Inr chunks)
                     \<and> int (length chunks) = int (length tokens) - 50 + 1"
    by simp
qed

text \<open>Sixty tokens, windows of 50, overlap 49: the call returns eleven chunks.\<close>

theorem chunk_text_terminates_witness:
  "encode (mock_encoding (replicate 60 7)) ''abc'' = Inr (replicate 60 7)
   \<and> (49::int) < 50
   \<and> (\<exists>chunks. chunk_text (Inr (mock_encoding (replicate 60 7))) ''abc'' [] ''doc'' md0 50 49
                         = Some (Inr chunks))
   \<and> (50::int) = 50 \<and> (49::int) = 49 \<and> 50 < int (length (replicate 60 (7::int)))
   \<and> (\<exists>chunks. chunk_text (Inr (mock_encoding (replicate 60 7))) ''abc'' [] ''doc'' md0 50 49
                         = Some (Inr chunks)
                     \<and> int (length chunks) = int (length (replicate 60 (7::int))) - 50 + 1)"
proof -
  have e: "encode (mock_encoding (replicate 60 7)) ''abc'' = Inr (replicate 60 7)"
    by (simp add: mock_encoding_def)
  have s: "(49::int) < 50" by simp
  from chunk_text_terminates [OF e s, of "[]" "''doc''" md0] e
  show ?thesis by simp
qed


section \<open>The page map and the page lookup\<close>

text \<open>
  C6 (page spans are contiguous: \<open>end_pos\<close> of span \<open>i\<close> plus 2 is \<open>start_pos\<close> of span
  \<open>i + 1\<close>, and the last \<open>end_pos\<close> is the length of the joined text). The code adds the
  separator only when \<open>current_pos > 0\<close>, so after a first page with empty text no separator
  is counted: for the pages \<open>''\<close> and \<open>'ab'\<close> the spans are \<open>[0, 0)\<close> and \<open>[0, 2)\<close>, while the
  text joined by \<open>extract_text\<close> has length 4 and its second page starts at offset 2. The
  property holds whenever the first page's text is non-empty (lemma
  \<open>build_page_map_contiguous\<close>).
\<close>

theorem build_page_map_leading_empty_page:
  "build_page_map [\<lparr>p_pageNumber = Some 1, p_text = Some ''''\<rparr>,
                   \<lparr>p_pageNumber = Some 2, p_text = Some ''ab''\<rparr>]
     = [\<lparr>start_pos = 0, end_pos = 0, page_number = 1\<rparr>,
        \<lparr>start_pos = 0, end_pos = 2, page_number = 2\<rparr>]
   \<and> length (py_join page_sep ['''', ''ab'']) = 4
   \<and> end_pos (build_page_map [\<lparr>p_pageNumber = Some 1, p_text = Some ''''\<rparr>,
                   \<lparr>p_pageNumber = Some 2, p_text = Some ''ab''\<rparr>] ! 0) + 2
       \<noteq> start_pos (build_page_map [\<lparr>p_pageNumber = Some 1, p_text = Some ''''\<rparr>,
                   \<lparr>p_pageNumber = Some 2, p_text = Some ''ab''\<rparr>] ! 1)
   \<and> end_pos (last (build_page_map [\<lparr>p_pageNumber = Some 1, p_text = Some ''''\<rparr>,
                   \<lparr>p_pageNumber = Some 2, p_text = Some ''ab''\<rparr>]))
       \<noteq> int (length (py_join page_sep ['''', ''ab'']))"
  by (simp add: build_page_map_def page_text_of_def page_number_of_def page_sep_def)

text \<open>
  C7 (page lookup). \<open>get_page_number_for_position\<close> returns the page number of the first
  span whose half-open interval contains the offset; when no span contains it, the last
  span's page number, or 1 for an empty page map. For the page map of two pages with
  non-empty texts of lengths \<open>L1\<close> and \<open>L2\<close>, the offsets 0 and \<open>L1 - 1\<close> give the first page's
  number, and \<open>L1 + 2\<close> and \<open>L1 + 2 + L2 + 100\<close> the second page's.
\<close>

theorem get_page_number_for_position_spec:
  "(\<forall>i<length page_map.
       start_pos (page_map ! i) \<le> offset \<and> offset < end_pos (page_map ! i)
       \<and> (\<forall>j<i. \<not> (start_pos (page_map ! j) \<le> offset \<and> offset < end_pos (page_map ! j)))
       \<longrightarrow> get_page_number_for_position offset page_map = page_number (page_map ! i))
   \<and> ((\<forall>i<length page_map.
          \<not> (start_pos (page_map ! i) \<le> offset \<and> offset < end_pos (page_map ! i)))
       \<longrightarrow> get_page_number_for_position offset page_map
             = (if page_map = [] then 1 else page_number (last page_map)))
   \<and> (page_text_of p1 \<noteq> [] \<and> page_text_of p2 \<noteq> [] \<longrightarrow>
         get_page_number_for_position 0 (build_page_map [p1, p2]) = page_number_of p1
       \<and> get_page_number_for_position (int (length (page_text_of p1)) - 1)
            (build_page_map [p1, p2]) = page_number_of p1
       \<and> get_page_number_for_position (int (length (page_text_of p1)) + 2)
            (build_page_map [p1, p2]) = page_number_of p2
       \<and> get_page_number_for_position
            (int (length (page_text_of p1)) + 2 + int (length (page_text_of p2)) + 100)
            (build_page_map [p1, p2]) = page_number_of p2)"
proof (intro conjI allI impI)
  fix i
  assume "i < length page_map"
    and "start_pos (page_map ! i) \<le> offset \<and> offset < end_pos (page_map ! i)
       \<and> (\<forall>j<i. \<not> (start_pos (page_map ! j) \<le> offset \<and> offset < end_pos (page_map ! j)))"
  then have "scan_page_map offset page_map = Some (page_number (page_map ! i))"
    by (intro scan_page_map_first) simp_all
  then show "get_page_number_for_position offset page_map = page_number (page_map ! i)"
    by (simp add: get_page_number_for_position_def)
next
  assume "\<forall>i<length page_map.
          \<not> (start_pos (page_map ! i) \<le> offset \<and> offset < end_pos (page_map ! i))"
  then have "\<forall>s \<in> set page_map. \<not> (start_pos s \<le> offset \<and> offset < end_pos s)"
    by (metis in_set_conv_nth)
  then have "scan_page_map offset page_map = None"
    by (simp add: scan_page_map_None)
  then show "get_page_number_for_position offset page_map
             = (if page_map = [] then 1 else page_number (last page_map))"
    by (simp add: get_page_number_for_position_def)
next
  assume ne: "page_text_of p1 \<noteq> [] \<and> page_text_of p2 \<noteq> []"
  then have l1: "0 < length (page_text_of p1)" and l2: "0 < length (page_text_of p2)"
    by simp_all
  note pm = build_page_map_two [of p1 p2]
  show "get_page_number_for_position 0 (build_page_map [p1, p2]) = page_number_of p1"
    using ne l1 by (simp add: pm get_page_number_for_position_def)
  show "get_page_number_for_position (int (length (page_text_of p1)) - 1)
            (build_page_map [p1, p2]) = page_number_of p1"
    using ne l1 by (simp add: pm get_page_number_for_position_def)
  show "get_page_number_for_position (int (length (page_text_of p1)) + 2)
            (build_page_map [p1, p2]) = page_number_of p2"
    using ne l1 l2 by (simp add: pm get_page_number_for_position_def)
  show "get_page_number_for_position
            (int (length (page_text_of p1)) + 2 + int (length (page_text_of p2)) + 100)
            (build_page_map [p1, p2]) = page_number_of p2"
    using ne l1 l2 by (simp add: pm get_page_number_for_position_def)
qed

text \<open>
  The lookup on the page map of the test suite (offset 15 is on page 2, offset 100 is past
  every span), and on the page map of \<open>Page one\<close>, \<open>Page two\<close>.
\<close>

theorem get_page_number_for_position_spec_witness:
  "(1 < length test_page_map
      \<and> start_pos (test_page_map ! 1) \<le> 15 \<and> 15 < end_pos (test_page_map ! 1)
      \<and> \<not> (start_pos (test_page_map ! 0) \<le> 15 \<and> 15 < end_pos (test_page_map ! 0))
      \<and> get_page_number_for_position 15 test_page_map = page_number (test_page_map ! 1))
   \<and> (length test_page_map = 3
      \<and> \<not> (start_pos (test_page_map ! 0) \<le> 100 \<and> 100 < end_pos (test_page_map ! 0))
      \<and> \<not> (start_pos (test_page_map ! 1) \<le> 100 \<and> 100 < end_pos (test_page_map ! 1))
      \<and> \<not> (start_pos (test_page_map ! 2) \<le> 100 \<and> 100 < end_pos (test_page_map ! 2))
      \<and> get_page_number_for_position 100 test_page_map
           = (if test_page_map = [] then 1 else page_number (last test_page_map)))
   \<and> (page_text_of page_one \<noteq> [] \<and> page_text_of page_two \<noteq> []
      \<and> get_page_number_for_position 0 (build_page_map [page_one, page_two]) = 1
      \<and> get_page_number_for_position (int (length (page_text_of page_one)) - 1)
            (build_page_map [page_one, page_two]) = 1
      \<and> get_page_number_for_position (int (length (page_text_of page_one)) + 2)
            (build_page_map [page_one, page_two]) = 2
      \<and> get_page_number_for_position
            (int (length (page_text_of page_one)) + 2 + int (length (page_text_of page_two)) + 100)
            (build_page_map [page_one, page_two]) = 2)"
proof -
  have len: "1 < length test_page_map" "length test_page_map = 3"
    by (simp_all add: test_page_map_def)
  have hit: "start_pos (test_page_map ! 1) \<le> 15 \<and> 15 < end_pos (test_page_map ! 1)"
    and before: "\<not> (start_pos (test_page_map ! 0) \<le> 15 \<and> 15 < end_pos (test_page_map ! 0))"
    by (simp_all add: test_page_map_def)
  have miss: "\<not> (start_pos (test_page_map ! 0) \<le> 100 \<and> 100 < end_pos (test_page_map ! 0))"
    "\<not> (start_pos (test_page_map ! 1) \<le> 100 \<and> 100 < end_pos (test_page_map ! 1))"
    "\<not> (start_pos (test_page_map ! 2) \<le> 100 \<and> 100 < end_pos (test_page_map ! 2))"
    by (simp_all add: test_page_map_def)
  have all_before: "\<forall>j<1. \<not> (start_pos (test_page_map ! j) \<le> 15 \<and> 15 < end_pos (test_page_map ! j))"
    using before by simp
  have all_miss: "\<forall>i<length test_page_map.
          \<not> (start_pos (test_page_map ! i) \<le> 100 \<and> 100 < end_pos (test_page_map ! i))"
    by (simp add: test_page_map_def All_less_Suc)
  have ne: "page_text_of page_one \<noteq> [] \<and> page_text_of page_two \<noteq> []"
    by (simp add: page_one_def page_two_def page_text_of_def)
  have nums: "page_number_of page_one = 1" "page_number_of page_two = 2"
    by (simp_all add: page_one_def page_two_def page_number_of_def)
  from get_page_number_for_position_spec [of test_page_map 15 page_one page_two]
    len(1) hit all_before
  have a: "get_page_number_for_position 15 test_page_map = page_number (test_page_map ! 1)"
    by blast
  from get_page_number_for_position_spec [of test_page_map 100 page_one page_two] all_miss
  have b: "get_page_number_for_position 100 test_page_map
           = (if test_page_map = [] then 1 else page_number (last test_page_map))"
    by blast
  from get_page_number_for_position_spec [of test_page_map 0 page_one page_two] ne
  have c: "get_page_number_for_position 0 (build_page_map [page_one, page_two]) = 1
      \<and> get_page_number_for_position (int (length (page_text_of page_one)) - 1)
            (build_page_map [page_one, page_two]) = 1
      \<and> get_page_number_for_position (int (length (page_text_of page_one)) + 2)
            (build_page_map [page_one, page_two]) = 2
      \<and> get_page_number_for_position
            (int (length (page_text_of page_one)) + 2 + int (length (page_text_of page_two)) + 100)
            (build_page_map [page_one, page_two]) = 2"
    unfolding nums by blast
  from len hit before miss ne a b c show ?thesis by blast
qed

text \<open>
  C10 (separator gap). In the page map built from any pages, an offset with
  \<open>end_pos\<close> of span \<open>i\<close> \<open>\<le> offset <\<close> \<open>start_pos\<close> of span \<open>i + 1\<close> lies in no span, and
  \<open>get_page_number_for_position\<close> returns the number of the last page for it. For two pages
  with non-empty texts, the first of length \<open>L1\<close>, the offsets \<open>L1\<close> and \<open>L1 + 1\<close> give the
  second page's number.
\<close>

theorem separator_gap_maps_to_last_page:
  "(Suc i < length pages_data
      \<and> end_pos (build_page_map pages_data ! i) \<le> offset
      \<and> offset < start_pos (build_page_map pages_data ! Suc i)
      \<longrightarrow> (\<forall>s \<in> set (build_page_map pages_data). \<not> (start_pos s \<le> offset \<and> offset < end_pos s))
        \<and> get_page_number_for_position offset (build_page_map pages_data)
            = page_number_of (last pages_data))
   \<and> (page_text_of p1 \<noteq> [] \<and> page_text_of p2 \<noteq> [] \<longrightarrow>
         get_page_number_for_position (int (length (page_text_of p1)))
            (build_page_map [p1, p2]) = page_number_of p2
       \<and> get_page_number_for_position (int (length (page_text_of p1)) + 1)
            (build_page_map [p1, p2]) = page_number_of p2)"
proof (intro conjI impI)
  let ?pm = "build_page_map pages_data"
  assume a: "Suc i < length pages_data \<and> end_pos (?pm ! i) \<le> offset
      \<and> offset < start_pos (?pm ! Suc i)"
  have len: "length ?pm = length pages_data"
    by (simp add: build_page_map_def build_page_map_loop_length)
  have ord: "\<And>j k. j < k \<Longrightarrow> k < length ?pm \<Longrightarrow> end_pos (?pm ! j) \<le> start_pos (?pm ! k)"
    using build_page_map_loop_ordered [of 0 pages_data]
    by (simp add: build_page_map_def sorted_wrt_iff_nth_less)
  have wf: "\<And>j. j < length ?pm \<Longrightarrow> start_pos (?pm ! j) \<le> end_pos (?pm ! j)"
    using build_page_map_loop_ordered [of 0 pages_data]
    by (simp add: build_page_map_def)
  have out: "\<not> (start_pos (?pm ! j) \<le> offset \<and> offset < end_pos (?pm ! j))"
    if j: "j < length ?pm" for j
  proof -
    consider "j < i" | "j = i" | "j = Suc i" | "Suc i < j" by linarith
    then show ?thesis
    proof cases
      case 1
      with ord [of j i] wf [of i] a len show ?thesis by simp
    next
      case 2
      with a show ?thesis by simp
    next
      case 3
      with a show ?thesis by simp
    next
      case 4
      with ord [of "Suc i" j] wf [of "Suc i"] a len j show ?thesis by simp
    qed
  qed
  then show none: "\<forall>s \<in> set ?pm. \<not> (start_pos s \<le> offset \<and> offset < end_pos s)"
    by (metis in_set_conv_nth)
  then have scan: "scan_page_map offset ?pm = None"
    by (simp add: scan_page_map_None)
  have ne: "?pm \<noteq> []" "pages_data \<noteq> []" using a len by auto
  have "page_number (last ?pm) = last (map page_number ?pm)"
    using ne by (simp add: last_map)
  also have "\<dots> = last (map page_number_of pages_data)"
    by (simp add: build_page_map_def build_page_map_loop_numbers)
  also have "\<dots> = page_number_of (last pages_data)"
    using ne by (simp add: last_map)
  finally show "get_page_number_for_position offset ?pm = page_number_of (last pages_data)"
    using scan ne by (simp add: get_page_number_for_position_def)
next
  assume ne: "page_text_of p1 \<noteq> [] \<and> page_text_of p2 \<noteq> []"
  note pm = build_page_map_two [of p1 p2]
  show "get_page_number_for_position (int (length (page_text_of p1)))
            (build_page_map [p1, p2]) = page_number_of p2"
    using ne by (simp add: pm get_page_number_for_position_def)
  show "get_page_number_for_position (int (length (page_text_of p1)) + 1)
            (build_page_map [p1, p2]) = page_number_of p2"
    using ne by (simp add: pm get_page_number_for_position_def)
qed

text \<open>
  Offset 9 lies between \<open>Page one\<close> (span \<open>[0, 8)\<close>) and \<open>Page two\<close> (span \<open>[10, 18)\<close>) of three
  pages and is given page 3; offsets 8 and 9 of the two-page map are given page 2.
\<close>

theorem separator_gap_maps_to_last_page_witness:
  "(Suc 0 < length [page_one, page_two, page_three]
      \<and> end_pos (build_page_map [page_one, page_two, page_three] ! 0) \<le> 9
      \<and> 9 < start_pos (build_page_map [page_one, page_two, page_three] ! Suc 0)
      \<and> get_page_number_for_position 9 (build_page_map [page_one, page_two, page_three]) = 3)
   \<and> (page_text_of page_one \<noteq> [] \<and> page_text_of page_two \<noteq> []
      \<and> get_page_number_for_position (int (length (page_text_of page_one)))
            (build_page_map [page_one, page_two]) = 2
      \<and> get_page_number_for_position (int (length (page_text_of page_one)) + 1)
            (build_page_map [page_one, page_two]) = 2)"
proof -
  have gap: "Suc 0 < length [page_one, page_two, page_three]
      \<and> end_pos (build_page_map [page_one, page_two, page_three] ! 0) \<le> 9
      \<and> 9 < start_pos (build_page_map [page_one, page_two, page_three] ! Suc 0)"
    by (simp add: build_page_map_def page_one_def page_two_def page_three_def page_text_of_def)
  have ne: "page_text_of page_one \<noteq> [] \<and> page_text_of page_two \<noteq> []"
    by (simp add: page_one_def page_two_def page_text_of_def)
  have nums: "page_number_of page_two = 2" "page_number_of (last [page_one, page_two, page_three]) = 3"
    by (simp_all add: page_two_def page_three_def page_number_of_def)
  from separator_gap_maps_to_last_page [of 0 "[page_one, page_two, page_three]" 9 page_one page_two]
    gap ne
  show ?thesis unfolding nums by blast
qed

end
